theory Spec2Isabelle
  imports Main "HOL-Library.Char_ord" "HOL-Library.List_Lexorder"
begin

section \<open>The cursor-driven agent of loop\_tool (include/loop\_tool/agent.h)\<close>

text \<open>
  The class \<^verbatim>\<open>LoopTreeAgent\<close> holds a loop tree \<^verbatim>\<open>lt\<close> and a cursor, and
  dispatches named actions to the mutation engine (\<^verbatim>\<open>mutate.h\<close>), the tree
  (\<^verbatim>\<open>ir.h\<close>) and the graph serializer (\<^verbatim>\<open>serialization.h\<close>). Every
  function the agent calls in those three headers is a field of the record \<open>engine\<close>
  below, and the agent is verified for every engine. A C++ exception is a value, a method
  is a function from the state of the object before the call to the outcome and the state
  after it. The metrics (\<^verbatim>\<open>eval\<close>) only forward the tree to the engine and are
  not part of this development.
\<close>

subsection \<open>Exceptions and outcomes\<close>

text \<open>
  What a \<^verbatim>\<open>catch\<close> clause of the source can tell apart is the C++ class of
  the exception. \<^verbatim>\<open>std::invalid_argument\<close> and \<^verbatim>\<open>std::out_of_range\<close> are
  the two classes \<^verbatim>\<open>std::stoi\<close> and \<^verbatim>\<open>std::string::substr\<close> throw; both
  derive from \<^verbatim>\<open>std::logic_error\<close>, not from \<^verbatim>\<open>std::runtime_error\<close>.
\<close>

datatype exn_class = RuntimeError | InvalidArgument | OutOfRange | OtherException

text \<open>
  The cause of a failure, in the vocabulary of the specification. The C++ code has no such
  tag: it is carried along so that statements about error kinds can be written down, and
  no function of the agent ever inspects it.
\<close>

datatype error_kind =
  UnknownAction | UnknownMetric | IllegalMutation | LoweringUnsupported
  | MalformedSerialization | OtherError

datatype exn = Exn (cls: exn_class) (kind: error_kind) (what: string)

text \<open>
  The outcome of a method call on an object with state \<open>'s\<close>: it returns a value, or
  an exception leaves it, in both cases with the state of the object at that moment; or
  the call has undefined behaviour (an out-of-range \<^verbatim>\<open>operator[]\<close>, a signed
  overflow), after which nothing is known.
\<close>

datatype ('a, 's) result = Returns 'a 's | Throws exn 's | Undefined

definition succeeds :: "('a, 's) result \<Rightarrow> bool" where
  "succeeds r = (case r of Returns v s \<Rightarrow> True | Throws e s \<Rightarrow> False | Undefined \<Rightarrow> False)"

text \<open>
  Modelled from the spec: the macro \<^verbatim>\<open>ASSERT(cond) << message\<close> (its header is
  missing). A failed assertion raises a \<^verbatim>\<open>std::runtime_error\<close> that carries the
  streamed message; the prefix the macro itself may add (condition, file, line) is left out.
\<close>

definition ASSERT :: "bool \<Rightarrow> error_kind \<Rightarrow> string \<Rightarrow> exn option" where
  "ASSERT cond k message = (if cond then None else Some (Exn RuntimeError k message))"

subsection \<open>The C++ standard library functions the agent uses\<close>

definition endl :: string where
  "endl = [CHR 0x0A]"

definition INT_MIN :: int where
  "INT_MIN = - (2 ^ 31)"

definition INT_MAX :: int where
  "INT_MAX = 2 ^ 31 - 1"

definition digit_char :: "nat \<Rightarrow> char" where
  "digit_char d = char_of (48 + d)"

fun digits :: "nat \<Rightarrow> string" where
  "digits n = (if n < 10 then [digit_char n] else digits (n div 10) @ [digit_char (n mod 10)])"

declare digits.simps [simp del]

text \<open>\<^verbatim>\<open>std::to_string(int)\<close>: the decimal digits, a minus sign first when negative.\<close>

definition to_string :: "int \<Rightarrow> string" where
  "to_string i = (if i < 0 then CHR ''-'' # digits (nat (- i)) else digits (nat i))"

definition isspace :: "char \<Rightarrow> bool" where
  "isspace c = (c = CHR '' '' \<or> (9::nat) \<le> of_char c \<and> of_char c \<le> (13::nat))"

definition isdigit :: "char \<Rightarrow> bool" where
  "isdigit c = ((48::nat) \<le> of_char c \<and> of_char c \<le> (57::nat))"

definition digit_val :: "char \<Rightarrow> nat" where
  "digit_val c = of_char c - 48"

definition decimal :: "string \<Rightarrow> nat" where
  "decimal ds = foldl (\<lambda>acc c. 10 * acc + digit_val c) 0 ds"

text \<open>
  \<^verbatim>\<open>std::stoi(str)\<close> (base 10, no position out-parameter), that is
  \<^verbatim>\<open>strtol\<close>: leading white space is skipped, one sign is optional, then the
  longest run of digits is read and whatever follows is ignored. No digit at all is
  \<^verbatim>\<open>std::invalid_argument\<close>, a value outside \<^verbatim>\<open>int\<close> is
  \<^verbatim>\<open>std::out_of_range\<close>.
\<close>

definition leading_digits :: "string \<Rightarrow> string" where
  "leading_digits str =
     (let t = dropWhile isspace str;
          u = (case t of [] \<Rightarrow> [] | c # r \<Rightarrow> if c = CHR ''-'' \<or> c = CHR ''+'' then r else t)
      in takeWhile isdigit u)"

definition stoi :: "string \<Rightarrow> exn + int" where
  "stoi str =
     (let t = dropWhile isspace str;
          neg = (case t of [] \<Rightarrow> False | c # r \<Rightarrow> c = CHR ''-'');
          ds = leading_digits str;
          v = (if neg then - int (decimal ds) else int (decimal ds))
      in if ds = [] then Inl (Exn InvalidArgument MalformedSerialization ''stoi'')
         else if v < INT_MIN \<or> INT_MAX < v then Inl (Exn OutOfRange MalformedSerialization ''stoi'')
         else Inr v)"

text \<open>\<^verbatim>\<open>std::string::npos\<close>, the largest \<^verbatim>\<open>size_t\<close> (64 bits).\<close>

definition npos :: nat where
  "npos = 2 ^ 64 - 1"

text \<open>\<^verbatim>\<open>ser.find(ch)\<close>: the position of the first occurrence, or \<open>npos\<close>.\<close>

definition string_find :: "string \<Rightarrow> char \<Rightarrow> nat" where
  "string_find s ch = (if ch \<in> set s then length (takeWhile (\<lambda>c. c \<noteq> ch) s) else npos)"

text \<open>The conversion \<^verbatim>\<open>size_t\<close> to \<^verbatim>\<open>int\<close>: the low 32 bits, read as signed.\<close>

definition size_t_to_int :: "nat \<Rightarrow> int" where
  "size_t_to_int n = (let m = int n mod 2 ^ 32 in if m < 2 ^ 31 then m else m - 2 ^ 32)"

text \<open>The conversion \<^verbatim>\<open>int\<close> to \<^verbatim>\<open>size_t\<close>: modulo \<open>2 ^ 64\<close>.\<close>

definition int_to_size_t :: "int \<Rightarrow> nat" where
  "int_to_size_t i = nat (i mod 2 ^ 64)"

text \<open>
  \<^verbatim>\<open>s.substr(pos, n)\<close>: \<^verbatim>\<open>std::out_of_range\<close> when \<open>pos\<close> is beyond the
  end, otherwise at most \<open>n\<close> characters from \<open>pos\<close>.
\<close>

definition substr :: "string \<Rightarrow> nat \<Rightarrow> nat \<Rightarrow> exn + string" where
  "substr s pos n =
     (if length s < pos then Inl (Exn OutOfRange OtherError ''basic_string::substr'')
      else Inr (take n (drop pos s)))"

subsection \<open>The engine: what agent.h calls in mutate.h, ir.h and serialization.h\<close>

type_synonym TreeRef = int

type_synonym NodeRef = int

text \<open>
  One field for each function of \<^verbatim>\<open>mutate.h\<close>, \<^verbatim>\<open>ir.h\<close> and
  \<^verbatim>\<open>serialization.h\<close> that the agent calls. The functions of the namespace
  \<^verbatim>\<open>loop_tool\<close> take the tree by constant reference and return a new tree or
  throw; \<open>'lt\<close> is the type \<^verbatim>\<open>LoopTree\<close>, \<open>'ir\<close> the type of its member
  \<^verbatim>\<open>ir\<close>.
\<close>

record ('lt, 'ir) engine =
  loop_tool_previous_ref :: "'lt \<Rightarrow> TreeRef \<Rightarrow> exn + TreeRef"
  loop_tool_next_ref :: "'lt \<Rightarrow> TreeRef \<Rightarrow> exn + TreeRef"
  loop_tool_try_swap :: "'lt \<Rightarrow> TreeRef \<Rightarrow> TreeRef \<Rightarrow> exn + 'lt"
  loop_tool_split :: "'lt \<Rightarrow> TreeRef \<Rightarrow> int \<Rightarrow> exn + 'lt"
  loop_tool_merge :: "'lt \<Rightarrow> TreeRef \<Rightarrow> exn + 'lt"
  loop_tool_annotate :: "'lt \<Rightarrow> TreeRef \<Rightarrow> string \<Rightarrow> exn + 'lt"
  loop_tool_get_inputs :: "'lt \<Rightarrow> TreeRef \<Rightarrow> exn + NodeRef list"
  loop_tool_copy_input :: "'lt \<Rightarrow> TreeRef \<Rightarrow> NodeRef \<Rightarrow> exn + 'lt"
  loop_tool_increase_reuse :: "'lt \<Rightarrow> TreeRef \<Rightarrow> exn + 'lt"
  loop_tool_decrease_reuse :: "'lt \<Rightarrow> TreeRef \<Rightarrow> exn + 'lt"
  loop_tool_serialize :: "'ir \<Rightarrow> string"
  loop_tool_deserialize :: "string \<Rightarrow> exn + 'ir"
  LoopTree_annotation :: "'lt \<Rightarrow> TreeRef \<Rightarrow> exn + string"
  LoopTree_dump :: "'lt \<Rightarrow> (TreeRef \<Rightarrow> string) \<Rightarrow> string"
  LoopTree_ir :: "'lt \<Rightarrow> 'ir"
  LoopTree_of_ir :: "'ir \<Rightarrow> 'lt"

subsection \<open>The agent\<close>

record 'lt LoopTreeAgent =
  lt :: 'lt
  cursor :: TreeRef

type_synonym 'lt action_result = "(unit, 'lt LoopTreeAgent) result"

text \<open>
  The pattern \<^verbatim>\<open>lt = loop_tool::f(lt, cursor, ...)\<close> of every tree action: the
  call is evaluated first, and an exception leaves before the assignment.
\<close>

definition assign_lt :: "'lt LoopTreeAgent \<Rightarrow> exn + 'lt \<Rightarrow> 'lt action_result" where
  "assign_lt a r = (case r of Inl e \<Rightarrow> Throws e a | Inr t \<Rightarrow> Returns () (a\<lparr>lt := t\<rparr>))"

definition assign_cursor :: "'lt LoopTreeAgent \<Rightarrow> exn + TreeRef \<Rightarrow> 'lt action_result" where
  "assign_cursor a r = (case r of Inl e \<Rightarrow> Throws e a | Inr c \<Rightarrow> Returns () (a\<lparr>cursor := c\<rparr>))"

definition up :: "('lt, 'ir) engine \<Rightarrow> 'lt LoopTreeAgent \<Rightarrow> 'lt action_result" where
  "up E a = assign_cursor a (loop_tool_previous_ref E (lt a) (cursor a))"

definition down :: "('lt, 'ir) engine \<Rightarrow> 'lt LoopTreeAgent \<Rightarrow> 'lt action_result" where
  "down E a = assign_cursor a (loop_tool_next_ref E (lt a) (cursor a))"

definition swap_up :: "('lt, 'ir) engine \<Rightarrow> 'lt LoopTreeAgent \<Rightarrow> 'lt action_result" where
  "swap_up E a =
     (case loop_tool_previous_ref E (lt a) (cursor a) of
        Inl e \<Rightarrow> Throws e a
      | Inr other \<Rightarrow> assign_lt a (loop_tool_try_swap E (lt a) (cursor a) other))"

definition swap_down :: "('lt, 'ir) engine \<Rightarrow> 'lt LoopTreeAgent \<Rightarrow> 'lt action_result" where
  "swap_down E a =
     (case loop_tool_next_ref E (lt a) (cursor a) of
        Inl e \<Rightarrow> Throws e a
      | Inr other \<Rightarrow> assign_lt a (loop_tool_try_swap E (lt a) (cursor a) other))"

definition split :: "('lt, 'ir) engine \<Rightarrow> int \<Rightarrow> 'lt LoopTreeAgent \<Rightarrow> 'lt action_result" where
  "split E split_size a = assign_lt a (loop_tool_split E (lt a) (cursor a) split_size)"

definition merge :: "('lt, 'ir) engine \<Rightarrow> 'lt LoopTreeAgent \<Rightarrow> 'lt action_result" where
  "merge E a = assign_lt a (loop_tool_merge E (lt a) (cursor a))"

definition annotate :: "('lt, 'ir) engine \<Rightarrow> string \<Rightarrow> 'lt LoopTreeAgent \<Rightarrow> 'lt action_result" where
  "annotate E annotation a =
     (case LoopTree_annotation E (lt a) (cursor a) of
        Inl e \<Rightarrow> Throws e a
      | Inr current \<Rightarrow>
          if current = annotation then assign_lt a (loop_tool_annotate E (lt a) (cursor a) [])
          else assign_lt a (loop_tool_annotate E (lt a) (cursor a) annotation))"

definition vectorize :: "('lt, 'ir) engine \<Rightarrow> 'lt LoopTreeAgent \<Rightarrow> 'lt action_result" where
  "vectorize E a = annotate E ''vectorize'' a"

definition unroll :: "('lt, 'ir) engine \<Rightarrow> 'lt LoopTreeAgent \<Rightarrow> 'lt action_result" where
  "unroll E a = annotate E ''unroll'' a"

text \<open>
  \<^verbatim>\<open>get_inputs(lt, cursor)[i]\<close> indexes a \<^verbatim>\<open>std::vector\<close> without a bounds
  check: beyond its end the behaviour is undefined.
\<close>

definition copy_input_n :: "nat \<Rightarrow> ('lt, 'ir) engine \<Rightarrow> 'lt LoopTreeAgent \<Rightarrow> 'lt action_result" where
  "copy_input_n i E a =
     (case loop_tool_get_inputs E (lt a) (cursor a) of
        Inl e \<Rightarrow> Throws e a
      | Inr inputs \<Rightarrow>
          if i < length inputs
          then assign_lt a (loop_tool_copy_input E (lt a) (cursor a) (inputs ! i))
          else Undefined)"

definition copy_input_0 :: "('lt, 'ir) engine \<Rightarrow> 'lt LoopTreeAgent \<Rightarrow> 'lt action_result" where
  "copy_input_0 E a = copy_input_n 0 E a"

definition copy_input_1 :: "('lt, 'ir) engine \<Rightarrow> 'lt LoopTreeAgent \<Rightarrow> 'lt action_result" where
  "copy_input_1 E a = copy_input_n 1 E a"

definition increase_reuse :: "('lt, 'ir) engine \<Rightarrow> 'lt LoopTreeAgent \<Rightarrow> 'lt action_result" where
  "increase_reuse E a = assign_lt a (loop_tool_increase_reuse E (lt a) (cursor a))"

definition decrease_reuse :: "('lt, 'ir) engine \<Rightarrow> 'lt LoopTreeAgent \<Rightarrow> 'lt action_result" where
  "decrease_reuse E a = assign_lt a (loop_tool_decrease_reuse E (lt a) (cursor a))"

text \<open>
  A pointer to a member function (\<^verbatim>\<open>ActionFn\<close>) is a tag, \<^verbatim>\<open>std::invoke\<close>
  calls the member it names. \<^verbatim>\<open>split_2\<close> to \<^verbatim>\<open>split_256\<close> call
  \<^verbatim>\<open>split\<close> with their size.
\<close>

datatype ActionFn =
  fn_up | fn_down | fn_swap_down | fn_swap_up
  | fn_split_2 | fn_split_4 | fn_split_8 | fn_split_16
  | fn_split_32 | fn_split_64 | fn_split_128 | fn_split_256
  | fn_merge | fn_vectorize | fn_unroll | fn_copy_input_0 | fn_copy_input_1
  | fn_increase_reuse | fn_decrease_reuse

fun invoke :: "ActionFn \<Rightarrow> ('lt, 'ir) engine \<Rightarrow> 'lt LoopTreeAgent \<Rightarrow> 'lt action_result" where
  "invoke fn_up E a = up E a"
| "invoke fn_down E a = down E a"
| "invoke fn_swap_down E a = swap_down E a"
| "invoke fn_swap_up E a = swap_up E a"
| "invoke fn_split_2 E a = split E 2 a"
| "invoke fn_split_4 E a = split E 4 a"
| "invoke fn_split_8 E a = split E 8 a"
| "invoke fn_split_16 E a = split E 16 a"
| "invoke fn_split_32 E a = split E 32 a"
| "invoke fn_split_64 E a = split E 64 a"
| "invoke fn_split_128 E a = split E 128 a"
| "invoke fn_split_256 E a = split E 256 a"
| "invoke fn_merge E a = merge E a"
| "invoke fn_vectorize E a = vectorize E a"
| "invoke fn_unroll E a = unroll E a"
| "invoke fn_copy_input_0 E a = copy_input_0 E a"
| "invoke fn_copy_input_1 E a = copy_input_1 E a"
| "invoke fn_increase_reuse E a = increase_reuse E a"
| "invoke fn_decrease_reuse E a = decrease_reuse E a"

text \<open>The initializer list of the member \<^verbatim>\<open>actions_fn\<close>, in the order of the source.\<close>

definition actions_fn :: "(string \<times> ActionFn) list" where
  "actions_fn =
     [(''up'', fn_up), (''down'', fn_down), (''swap_down'', fn_swap_down),
      (''swap_up'', fn_swap_up), (''split_2'', fn_split_2), (''split_4'', fn_split_4),
      (''split_8'', fn_split_8), (''split_16'', fn_split_16), (''split_32'', fn_split_32),
      (''split_64'', fn_split_64), (''split_128'', fn_split_128),
      (''split_256'', fn_split_256), (''merge'', fn_merge), (''vectorize'', fn_vectorize),
      (''unroll'', fn_unroll), (''copy_input_0'', fn_copy_input_0),
      (''copy_input_1'', fn_copy_input_1), (''increase_reuse'', fn_increase_reuse),
      (''decrease_reuse'', fn_decrease_reuse)]"

text \<open>
  A \<^verbatim>\<open>std::map\<close> with string keys is iterated in the lexicographic order of
  its keys (characters compared as unsigned bytes).
\<close>

definition map_keys :: "(string \<times> 'v) list \<Rightarrow> string list" where
  "map_keys m = sort (remdups (map fst m))"

definition help_actions :: string where
  "help_actions =
     ''Available actions are:'' @ endl @ concat (map (\<lambda>name. name @ endl) (map_keys actions_fn))"

definition apply_action :: "('lt, 'ir) engine \<Rightarrow> string \<Rightarrow> 'lt LoopTreeAgent \<Rightarrow> 'lt action_result" where
  "apply_action E action a =
     (case ASSERT (map_of actions_fn action \<noteq> None) UnknownAction help_actions of
        Some e \<Rightarrow> Throws e a
      | None \<Rightarrow> invoke (the (map_of actions_fn action)) E a)"

text \<open>
  The body of the loop of \<^verbatim>\<open>get_available_actions\<close>, over the keys still to
  visit. \<^verbatim>\<open>catch (std::runtime_error e) {}\<close> catches by class; after the
  \<^verbatim>\<open>try\<close> block both members are assigned from the copies. An exception of
  another class leaves the loop, and the function, before those assignments.
\<close>

fun trial_loop ::
  "('lt, 'ir) engine \<Rightarrow> 'lt \<Rightarrow> TreeRef \<Rightarrow> string list \<Rightarrow> string list \<Rightarrow> 'lt LoopTreeAgent
    \<Rightarrow> (string list, 'lt LoopTreeAgent) result" where
  "trial_loop E lt_copy cursor_copy [] available_actions a = Returns available_actions a"
| "trial_loop E lt_copy cursor_copy (action # rest) available_actions a =
     (case apply_action E action a of
        Returns u a' \<Rightarrow>
          trial_loop E lt_copy cursor_copy rest (available_actions @ [action])
            (a'\<lparr>lt := lt_copy, cursor := cursor_copy\<rparr>)
      | Throws e a' \<Rightarrow>
          if cls e = RuntimeError
          then trial_loop E lt_copy cursor_copy rest available_actions
                 (a'\<lparr>lt := lt_copy, cursor := cursor_copy\<rparr>)
          else Throws e a'
      | Undefined \<Rightarrow> Undefined)"

definition get_available_actions ::
  "('lt, 'ir) engine \<Rightarrow> 'lt LoopTreeAgent \<Rightarrow> (string list, 'lt LoopTreeAgent) result" where
  "get_available_actions E a = trial_loop E (lt a) (cursor a) (map_keys actions_fn) [] a"

text \<open>
  A caller chains calls, \<^verbatim>\<open>agent.apply_action(x).apply_action(y)\<close>: each action
  runs on the state the one before it left, and the first failure ends the chain.
\<close>

fun apply_actions :: "('lt, 'ir) engine \<Rightarrow> string list \<Rightarrow> 'lt LoopTreeAgent \<Rightarrow> 'lt action_result" where
  "apply_actions E [] a = Returns () a"
| "apply_actions E (action # rest) a =
     (case apply_action E action a of
        Returns u a' \<Rightarrow> apply_actions E rest a'
      | Throws e a' \<Rightarrow> Throws e a'
      | Undefined \<Rightarrow> Undefined)"

definition dump :: "('lt, 'ir) engine \<Rightarrow> 'lt LoopTreeAgent \<Rightarrow> string" where
  "dump E a =
     LoopTree_dump E (lt a)
       (\<lambda>ref. if ref = cursor a then ''<<<<<< cursor (line '' @ to_string (cursor a) @ '' )''
              else [])"

definition serialize :: "('lt, 'ir) engine \<Rightarrow> 'lt LoopTreeAgent \<Rightarrow> string" where
  "serialize E a = to_string (cursor a) @ endl @ loop_tool_serialize E (LoopTree_ir E (lt a))"

text \<open>
  \<^verbatim>\<open>deserialize\<close> is a member function that builds a new agent and leaves its
  own object alone (the line it prints to \<^verbatim>\<open>std::cout\<close> is not modelled).
  \<^verbatim>\<open>delimiter_pos\<close> is an \<^verbatim>\<open>int\<close> that receives a \<^verbatim>\<open>size_t\<close>
  and is passed back where a \<^verbatim>\<open>size_t\<close> is expected; \<^verbatim>\<open>delimiter_pos + 1\<close>
  overflows when it is \<open>INT_MAX\<close>.
\<close>

definition deserialize ::
  "('lt, 'ir) engine \<Rightarrow> 'lt LoopTreeAgent \<Rightarrow> string \<Rightarrow> ('lt LoopTreeAgent, 'lt LoopTreeAgent) result" where
  "deserialize E this ser =
     (let delimiter_pos = size_t_to_int (string_find ser (CHR 0x0A)) in
      case substr ser 0 (int_to_size_t delimiter_pos) of
        Inl e \<Rightarrow> Throws e this
      | Inr first_line \<Rightarrow>
          (case stoi first_line of
             Inl e \<Rightarrow> Throws e this
           | Inr cursor_value \<Rightarrow>
               if delimiter_pos = INT_MAX then Undefined
               else
                 (case substr ser (int_to_size_t (delimiter_pos + 1)) (length ser) of
                    Inl e \<Rightarrow> Throws e this
                  | Inr rest \<Rightarrow>
                      (case loop_tool_deserialize E rest of
                         Inl e \<Rightarrow> Throws e this
                       | Inr g \<Rightarrow>
                           Returns \<lparr>lt = LoopTree_of_ir E g, cursor = cursor_value\<rparr> this))))"

text \<open>The copy constructor: the tree is built anew from the graph of the original's tree.\<close>

definition copy_constructor :: "('lt, 'ir) engine \<Rightarrow> 'lt LoopTreeAgent \<Rightarrow> 'lt LoopTreeAgent" where
  "copy_constructor E agent =
     \<lparr>lt = LoopTree_of_ir E (LoopTree_ir E (lt agent)), cursor = cursor agent\<rparr>"

subsection \<open>Which outcomes leave the trial loop\<close>

definition escapes :: "('a, 's) result \<Rightarrow> bool" where
  "escapes r =
     (case r of Returns v s \<Rightarrow> False | Throws e s \<Rightarrow> cls e \<noteq> RuntimeError | Undefined \<Rightarrow> True)"

definition propagate :: "('a, 's) result \<Rightarrow> ('b, 's) result" where
  "propagate r =
     (case r of Returns v s \<Rightarrow> Undefined | Throws e s \<Rightarrow> Throws e s | Undefined \<Rightarrow> Undefined)"

subsection \<open>The loop tree of the specification\<close>

text \<open>
  Modelled from the spec: the loop tree (\<^verbatim>\<open>ir.h\<close> is missing). A node is a loop
  with an iteration variable, an extent, a step, an annotation and its children in order,
  or a leaf with a compute operation and the loop variables it consumes. A tree is the
  list of its top-level nodes, and a reference is the position of a node in the
  depth-first, child-order-respecting traversal (the line of the node in the dump, as the
  cursor marker of \<^verbatim>\<open>dump\<close> prints it).
\<close>

datatype node =
  Loop nat nat nat string "node list"
  | Leaf nat "nat list"

fun count_nodes :: "node list \<Rightarrow> nat" where
  "count_nodes [] = 0"
| "count_nodes (Leaf c vs # ns) = Suc (count_nodes ns)"
| "count_nodes (Loop v n s x cs # ns) = Suc (count_nodes cs + count_nodes ns)"

fun node_at :: "node list \<Rightarrow> nat \<Rightarrow> node option" where
  "node_at [] i = None"
| "node_at (Leaf c vs # ns) i = (if i = 0 then Some (Leaf c vs) else node_at ns (i - 1))"
| "node_at (Loop v n s x cs # ns) i =
     (if i = 0 then Some (Loop v n s x cs)
      else if i - 1 < count_nodes cs then node_at cs (i - 1)
      else node_at ns (i - 1 - count_nodes cs))"

definition illegal :: "string \<Rightarrow> exn" where
  "illegal message = Exn RuntimeError IllegalMutation message"

text \<open>
  Modelled from the spec: a mutation replaces the node a reference names by the result of
  a rewrite of that node, in a new tree, and fails as the rewrite does; a reference that
  names no node of the tree violates the precondition of every operation.
\<close>

fun rewrite_at :: "(node \<Rightarrow> exn + node) \<Rightarrow> node list \<Rightarrow> nat \<Rightarrow> exn + node list" where
  "rewrite_at f [] i = Inl (illegal ''no such node'')"
| "rewrite_at f (Leaf c vs # ns) i =
     (if i = 0 then map_sum id (\<lambda>m. m # ns) (f (Leaf c vs))
      else map_sum id (\<lambda>ms. Leaf c vs # ms) (rewrite_at f ns (i - 1)))"
| "rewrite_at f (Loop v n s x cs # ns) i =
     (if i = 0 then map_sum id (\<lambda>m. m # ns) (f (Loop v n s x cs))
      else if i - 1 < count_nodes cs
        then map_sum id (\<lambda>ms. Loop v n s x ms # ns) (rewrite_at f cs (i - 1))
      else map_sum id (\<lambda>ms. Loop v n s x cs # ms) (rewrite_at f ns (i - 1 - count_nodes cs)))"

definition mutate_at :: "(node \<Rightarrow> exn + node) \<Rightarrow> node list \<Rightarrow> TreeRef \<Rightarrow> exn + node list" where
  "mutate_at f t ref = (if ref < 0 then Inl (illegal ''no such node'') else rewrite_at f t (nat ref))"

text \<open>
  Modelled from the spec: \<^verbatim>\<open>LoopTree::annotation\<close>, the annotation of a loop node
  (a leaf carries none).
\<close>

definition annotation_spec :: "node list \<Rightarrow> TreeRef \<Rightarrow> exn + string" where
  "annotation_spec t ref =
     (if ref < 0 then Inl (illegal ''no such node'')
      else case node_at t (nat ref) of
        None \<Rightarrow> Inl (illegal ''no such node'')
      | Some (Leaf c vs) \<Rightarrow> Inl (illegal ''not a loop'')
      | Some (Loop v n s x cs) \<Rightarrow> Inr x)"

text \<open>
  Modelled from the spec: \<^verbatim>\<open>loop_tool::annotate(tree, ref, text)\<close> returns a tree
  identical except for the annotation of the loop node \<open>ref\<close>, which becomes
  \<open>text\<close>; it fails when \<open>ref\<close> is a leaf.
\<close>

fun set_annotation :: "string \<Rightarrow> node \<Rightarrow> exn + node" where
  "set_annotation text (Loop v n s x cs) = Inr (Loop v n s text cs)"
| "set_annotation text (Leaf c vs) = Inl (illegal ''annotate: not a loop'')"

definition annotate_spec :: "node list \<Rightarrow> TreeRef \<Rightarrow> string \<Rightarrow> exn + node list" where
  "annotate_spec t ref text = mutate_at (set_annotation text) t ref"

text \<open>
  Modelled from the spec: \<^verbatim>\<open>loop_tool::merge(tree, ref)\<close> needs a loop node whose
  single child is a loop node, and collapses the pair into one loop whose extent is the
  product of the two; it fails when the child of \<open>ref\<close> is not a sole loop node, so
  also when \<open>ref\<close> is a leaf.
\<close>

fun collapse :: "node \<Rightarrow> exn + node" where
  "collapse (Loop v n s x [Loop v' n' s' x' cs]) = Inr (Loop v (n * n') s x cs)"
| "collapse (Loop v n s x cs) = Inl (illegal ''merge: the child is not a sole loop'')"
| "collapse (Leaf c vs) = Inl (illegal ''merge: not a loop'')"

definition merge_spec :: "node list \<Rightarrow> TreeRef \<Rightarrow> exn + node list" where
  "merge_spec t ref = mutate_at collapse t ref"

text \<open>
  Modelled from the spec: \<^verbatim>\<open>previous_ref\<close> and \<^verbatim>\<open>next_ref\<close> give the
  reference just before and just after \<open>ref\<close> in the traversal, and fail at the first
  and at the last node (the spec leaves open whether they fail or stay; failing is chosen).
\<close>

definition previous_ref_spec :: "node list \<Rightarrow> TreeRef \<Rightarrow> exn + TreeRef" where
  "previous_ref_spec t ref =
     (if 0 < ref \<and> ref < int (count_nodes t) then Inr (ref - 1)
      else Inl (illegal ''no previous node''))"

definition next_ref_spec :: "node list \<Rightarrow> TreeRef \<Rightarrow> exn + TreeRef" where
  "next_ref_spec t ref =
     (if 0 \<le> ref \<and> ref + 1 < int (count_nodes t) then Inr (ref + 1)
      else Inl (illegal ''no next node''))"

subsection \<open>Two engines to run the agent on\<close>

text \<open>
  An engine on the trees above, whose graph is the tree itself. Navigation, annotations and
  merge are the operations modelled from the spec; the operations the spec does not
  determine (swap, split, copies of inputs, reuse, the graph text) are refused by this
  engine. It serves to run the agent on concrete states.
\<close>

definition tree_engine :: "(node list, node list) engine" where
  "tree_engine =
     \<lparr>loop_tool_previous_ref = previous_ref_spec,
      loop_tool_next_ref = next_ref_spec,
      loop_tool_try_swap = (\<lambda>t ref other. Inl (illegal ''try_swap'')),
      loop_tool_split = (\<lambda>t ref k. Inl (illegal ''split'')),
      loop_tool_merge = merge_spec,
      loop_tool_annotate = annotate_spec,
      loop_tool_get_inputs = (\<lambda>t ref. Inl (illegal ''get_inputs'')),
      loop_tool_copy_input = (\<lambda>t ref i. Inl (illegal ''copy_input'')),
      loop_tool_increase_reuse = (\<lambda>t ref. Inl (illegal ''increase_reuse'')),
      loop_tool_decrease_reuse = (\<lambda>t ref. Inl (illegal ''decrease_reuse'')),
      loop_tool_serialize = (\<lambda>g. []),
      loop_tool_deserialize = (\<lambda>text. Inl (Exn RuntimeError MalformedSerialization ''deserialize'')),
      LoopTree_annotation = annotation_spec,
      LoopTree_dump = (\<lambda>t mark. concat (map mark (map int (upt 0 (count_nodes t))))),
      LoopTree_ir = (\<lambda>t. t),
      LoopTree_of_ir = (\<lambda>g. g)\<rparr>"

text \<open>
  An engine whose trees and graphs are their own serialized text, so that every text
  deserializes; it refuses every mutation. It serves to run the serialization of the agent.
\<close>

definition text_engine :: "(string, string) engine" where
  "text_engine =
     \<lparr>loop_tool_previous_ref = (\<lambda>t ref. Inl (illegal ''previous_ref'')),
      loop_tool_next_ref = (\<lambda>t ref. Inl (illegal ''next_ref'')),
      loop_tool_try_swap = (\<lambda>t ref other. Inl (illegal ''try_swap'')),
      loop_tool_split = (\<lambda>t ref k. Inl (illegal ''split'')),
      loop_tool_merge = (\<lambda>t ref. Inl (illegal ''merge'')),
      loop_tool_annotate = (\<lambda>t ref text. Inl (illegal ''annotate'')),
      loop_tool_get_inputs = (\<lambda>t ref. Inr []),
      loop_tool_copy_input = (\<lambda>t ref i. Inl (illegal ''copy_input'')),
      loop_tool_increase_reuse = (\<lambda>t ref. Inl (illegal ''increase_reuse'')),
      loop_tool_decrease_reuse = (\<lambda>t ref. Inl (illegal ''decrease_reuse'')),
      loop_tool_serialize = (\<lambda>g. g),
      loop_tool_deserialize = (\<lambda>text. Inr text),
      LoopTree_annotation = (\<lambda>t ref. Inl (illegal ''annotation'')),
      LoopTree_dump = (\<lambda>t mark. t),
      LoopTree_ir = (\<lambda>t. t),
      LoopTree_of_ir = (\<lambda>g. g)\<rparr>"

subsection \<open>Names and states used in the statements\<close>

text \<open>The action names as the specification lists them, in its order.\<close>

definition exposed_action_names :: "string list" where
  "exposed_action_names =
     [''up'', ''down'', ''swap_down'', ''swap_up'', ''split_2'', ''split_4'', ''split_8'',
      ''split_16'', ''split_32'', ''split_64'', ''split_128'', ''split_256'', ''merge'',
      ''vectorize'', ''unroll'', ''copy_input_0'', ''copy_input_1'', ''increase_reuse'',
      ''decrease_reuse'']"

text \<open>
  The frame of an action on the state \<open>a\<close>: an action on the tree writes the member
  \<^verbatim>\<open>lt\<close> only, a navigation writes the cursor only, and a failed action writes
  nothing.
\<close>

definition keeps_cursor :: "'lt LoopTreeAgent \<Rightarrow> 'lt action_result \<Rightarrow> bool" where
  "keeps_cursor a r =
     (case r of Returns u s \<Rightarrow> (\<exists>t. s = a\<lparr>lt := t\<rparr>) | Throws e s \<Rightarrow> s = a | Undefined \<Rightarrow> True)"

definition keeps_tree :: "'lt LoopTreeAgent \<Rightarrow> 'lt action_result \<Rightarrow> bool" where
  "keeps_tree a r =
     (case r of Returns u s \<Rightarrow> (\<exists>c. s = a\<lparr>cursor := c\<rparr>) | Throws e s \<Rightarrow> s = a | Undefined \<Rightarrow> False)"

text \<open>A loop of extent 64 around one leaf, the cursor on the loop.\<close>

definition example_agent :: "node list LoopTreeAgent" where
  "example_agent = \<lparr>lt = [Loop 0 64 1 [] [Leaf 0 [0]]], cursor = 0\<rparr>"

text \<open>
  The engine on trees with a merge that always fails with a given exception, and two
  exceptions that are not about legality: a defect signalled as the engine signals every
  failure, by a \<^verbatim>\<open>std::runtime_error\<close>, and a \<^verbatim>\<open>std::bad_alloc\<close>, which
  is not of that class.
\<close>

definition failing_merge_engine :: "exn \<Rightarrow> (node list, node list) engine" where
  "failing_merge_engine e = tree_engine\<lparr>loop_tool_merge := (\<lambda>t ref. Inl e)\<rparr>"

definition defect :: exn where
  "defect = Exn RuntimeError OtherError ''index out of bounds''"

definition bad_alloc :: exn where
  "bad_alloc = Exn OtherException OtherError ''std::bad_alloc''"



text \<open>
  The text before the first newline, and the text after it; without a newline both are the
  whole text.
\<close>

definition first_line :: "string \<Rightarrow> string" where
  "first_line ser = takeWhile (\<lambda>c. c \<noteq> CHR 0x0A) ser"

definition after_first_line :: "string \<Rightarrow> string" where
  "after_first_line ser =
     (if CHR 0x0A \<in> set ser then tl (dropWhile (\<lambda>c. c \<noteq> CHR 0x0A) ser) else ser)"

text \<open>An agent of the engine on texts, its cursor on line 3.\<close>

definition text_agent :: "string LoopTreeAgent" where
  "text_agent = \<lparr>lt = ''graph'', cursor = 3\<rparr>"

text \<open>The same tree with the cursor on the leaf.\<close>

definition leaf_agent :: "node list LoopTreeAgent" where
  "leaf_agent = \<lparr>lt = [Loop 0 64 1 [] [Leaf 0 [0]]], cursor = 1\<rparr>"

text \<open>
  Modelled from the spec: what the agent needs of \<^verbatim>\<open>LoopTree::annotation\<close> and
  \<^verbatim>\<open>loop_tool::annotate\<close>. On a node that has an annotation (a loop node),
  \<^verbatim>\<open>annotate\<close> succeeds, and the annotation of that node in the new tree is the
  text given.
\<close>

definition annotation_contract :: "('lt, 'ir) engine \<Rightarrow> bool" where
  "annotation_contract E =
     (\<forall>t ref x text. LoopTree_annotation E t ref = Inr x \<longrightarrow>
        (\<exists>t'. loop_tool_annotate E t ref text = Inr t' \<and> LoopTree_annotation E t' ref = Inr text))"

text \<open>
  Modelled from the spec: structural equivalence of two trees as \<^verbatim>\<open>dump()\<close> shows
  it: the two trees print the same text, whatever is written beside their lines.
\<close>

definition same_dump :: "('lt, 'ir) engine \<Rightarrow> 'lt \<Rightarrow> 'lt \<Rightarrow> bool" where
  "same_dump E t t' = (\<forall>mark. LoopTree_dump E t mark = LoopTree_dump E t' mark)"

text \<open>
  Modelled from the spec: the round trip that the Serialization component and the
  construction of a tree from a graph owe, up to an equivalence \<open>same\<close> of trees.
  The text of the graph of a tree reads back as a graph, and the tree built from that
  graph is equivalent to the tree.
\<close>

definition round_trip_up_to :: "('lt \<Rightarrow> 'lt \<Rightarrow> bool) \<Rightarrow> ('lt, 'ir) engine \<Rightarrow> bool" where
  "round_trip_up_to same E =
     (\<forall>t. \<exists>g. loop_tool_deserialize E (loop_tool_serialize E (LoopTree_ir E t)) = Inr g
               \<and> same (LoopTree_of_ir E g) t)"

section \<open>Properties\<close>

subsection \<open>The action table and the frame of an action\<close>

lemma map_keys_actions_fn: "map_keys actions_fn =
  [''copy_input_0'', ''copy_input_1'', ''decrease_reuse'', ''down'', ''increase_reuse'',
   ''merge'', ''split_128'', ''split_16'', ''split_2'', ''split_256'', ''split_32'',
   ''split_4'', ''split_64'', ''split_8'', ''swap_down'', ''swap_up'', ''unroll'', ''up'',
   ''vectorize'']"
  by (simp add: map_keys_def actions_fn_def)

lemma set_map_keys: "set (map_keys m) = fst ` set m"
  by (simp add: map_keys_def)

lemma map_of_registered: "map_of actions_fn n \<noteq> None \<longleftrightarrow> n \<in> set (map_keys actions_fn)"
  by (simp add: set_map_keys map_of_eq_None_iff)

lemma keeps_cursor_assign_lt: "keeps_cursor a (assign_lt a r) \<and> assign_lt a r \<noteq> Undefined"
  by (cases r) (auto simp: assign_lt_def keeps_cursor_def)

lemma keeps_tree_assign_cursor: "keeps_tree a (assign_cursor a r)"
  by (cases r) (auto simp: assign_cursor_def keeps_tree_def)

lemma keeps_cursor_Throws: "keeps_cursor a (Throws e a)"
  by (simp add: keeps_cursor_def)

lemma keeps_cursor_annotate: "keeps_cursor a (annotate E x a) \<and> annotate E x a \<noteq> Undefined"
  by (simp add: annotate_def keeps_cursor_assign_lt keeps_cursor_Throws split: sum.splits)

lemma keeps_cursor_Undefined: "keeps_cursor a Undefined"
  by (simp add: keeps_cursor_def)

lemma keeps_cursor_copy_input_n: "keeps_cursor a (copy_input_n i E a)"
  by (simp add: copy_input_n_def keeps_cursor_assign_lt keeps_cursor_Throws keeps_cursor_Undefined split: sum.splits)

lemma keeps_cursor_invoke:
  "f \<noteq> fn_up \<Longrightarrow> f \<noteq> fn_down \<Longrightarrow> keeps_cursor a (invoke f E a)"
  by (cases f)
    (simp_all add: swap_up_def swap_down_def split_def merge_def vectorize_def unroll_def
      copy_input_0_def copy_input_1_def increase_reuse_def decrease_reuse_def
      keeps_cursor_assign_lt keeps_cursor_Throws keeps_cursor_annotate keeps_cursor_copy_input_n
      split: sum.splits)


lemma keeps_tree_invoke: "f = fn_up \<or> f = fn_down \<Longrightarrow> keeps_tree a (invoke f E a)"
  by (auto simp: up_def down_def keeps_tree_assign_cursor)

lemma invoke_frame: "keeps_cursor a (invoke f E a) \<or> keeps_tree a (invoke f E a)"
  using keeps_cursor_invoke [of f a E] keeps_tree_invoke [of f a E] by blast

lemma apply_action_unknown:
  "action \<notin> set (map_keys actions_fn) \<Longrightarrow>
     apply_action E action a = Throws (Exn RuntimeError UnknownAction help_actions) a"
  using map_of_registered [of action] by (simp add: apply_action_def ASSERT_def)

lemma apply_action_known:
  "action \<in> set (map_keys actions_fn) \<Longrightarrow>
     \<exists>f. map_of actions_fn action = Some f \<and> apply_action E action a = invoke f E a"
  using map_of_registered [of action] by (auto simp: apply_action_def ASSERT_def)

lemma apply_action_frame:
  "keeps_cursor a (apply_action E action a) \<or> keeps_tree a (apply_action E action a)"
proof (cases "action \<in> set (map_keys actions_fn)")
  case True
  then show ?thesis using apply_action_known [of action E a] invoke_frame by metis
next
  case False
  then show ?thesis by (simp add: apply_action_unknown keeps_cursor_Throws)
qed

lemma restore_copies: "(s :: 'lt LoopTreeAgent)\<lparr>lt := lt a, cursor := cursor a\<rparr> = a"
  by simp

lemma frame_Throws: "keeps_cursor a r \<or> keeps_tree a r \<Longrightarrow> r = Throws e s \<Longrightarrow> s = a"
  by (auto simp: keeps_cursor_def keeps_tree_def)

lemma trial_loop_char:
  "trial_loop E (lt a) (cursor a) names acc a =
     (case find (\<lambda>n. escapes (apply_action E n a)) names of
        None \<Rightarrow> Returns (acc @ filter (\<lambda>n. succeeds (apply_action E n a)) names) a
      | Some n \<Rightarrow> propagate (apply_action E n a))"
proof (induction names arbitrary: acc)
  case Nil
  then show ?case by simp
next
  case (Cons n names)
  note fr = apply_action_frame [of a E n]
  show ?case
  proof (cases rule: result.exhaust [of "apply_action E n a"])
    case (Returns u s)
    then show ?thesis
      using Cons.IH [of "acc @ [n]"]
      by (simp add: escapes_def succeeds_def restore_copies split: option.splits)
  next
    case (Throws e s)
    then show ?thesis
      using frame_Throws [OF fr Throws] Cons.IH [of acc]
      by (simp add: escapes_def succeeds_def propagate_def restore_copies split: option.splits)
  next
    case Undefined
    then show ?thesis by (simp add: escapes_def propagate_def)
  qed
qed

lemmas action_defs =
  up_def down_def swap_up_def swap_down_def split_def merge_def annotate_def vectorize_def
  unroll_def copy_input_n_def copy_input_0_def copy_input_1_def increase_reuse_def
  decrease_reuse_def assign_lt_def assign_cursor_def

lemmas tree_engine_defs =
  tree_engine_def previous_ref_spec_def next_ref_spec_def merge_spec_def annotate_spec_def
  annotation_spec_def mutate_at_def illegal_def

lemma keys_exposed: "map fst actions_fn = exposed_action_names"
  by (simp add: actions_fn_def exposed_action_names_def)

lemma set_exposed: "set (map_keys actions_fn) = set exposed_action_names"
  using keys_exposed by (simp add: map_keys_def)

lemma help_lists_name:
  assumes "name \<in> set (map_keys actions_fn)"
  shows "\<exists>before after. help_actions = before @ name @ endl @ after"
proof -
  from assms obtain xs ys where "map_keys actions_fn = xs @ name # ys"
    by (meson split_list)
  then have "help_actions =
      (''Available actions are:'' @ endl @ concat (map (\<lambda>n. n @ endl) xs)) @ name @ endl
        @ concat (map (\<lambda>n. n @ endl) ys)"
    by (simp add: help_actions_def)
  then show ?thesis by blast
qed

lemma dispatch_table:
  "map (\<lambda>name. apply_action E name a) exposed_action_names =
     [up E a, down E a, swap_down E a, swap_up E a, split E 2 a, split E 4 a, split E 8 a,
      split E 16 a, split E 32 a, split E 64 a, split E 128 a, split E 256 a, merge E a,
      vectorize E a, unroll E a, copy_input_0 E a, copy_input_1 E a, increase_reuse E a,
      decrease_reuse E a]"
  by (simp add: exposed_action_names_def apply_action_def ASSERT_def actions_fn_def)

text \<open>
  Claim C4. \<^verbatim>\<open>apply_action(name)\<close> dispatches exactly for the 19 names of the
  table, compared as exact strings: each name calls the member of the same name. For any
  other string it fails with the unknown-action error, raised by the assertion, whose
  message is the help text, and the help text lists every registered name on a line of
  its own; the state of the agent is as before the call.
\<close>

theorem apply_action_dispatch:
  "length exposed_action_names = 19 \<and> distinct exposed_action_names
   \<and> map (\<lambda>name. apply_action E name a) exposed_action_names =
     [up E a, down E a, swap_down E a, swap_up E a, split E 2 a, split E 4 a, split E 8 a,
      split E 16 a, split E 32 a, split E 64 a, split E 128 a, split E 256 a, merge E a,
      vectorize E a, unroll E a, copy_input_0 E a, copy_input_1 E a, increase_reuse E a,
      decrease_reuse E a]
   \<and> (action \<in> set exposed_action_names \<longrightarrow>
        (\<exists>f. map_of actions_fn action = Some f \<and> apply_action E action a = invoke f E a))
   \<and> (action \<notin> set exposed_action_names \<longrightarrow>
        apply_action E action a = Throws (Exn RuntimeError UnknownAction help_actions) a
        \<and> (\<forall>name \<in> set exposed_action_names.
              \<exists>before after. help_actions = before @ name @ endl @ after))"
proof -
  have "length exposed_action_names = 19 \<and> distinct exposed_action_names"
    by (simp add: exposed_action_names_def)
  moreover note dispatch_table [of E a]
  moreover have "action \<in> set exposed_action_names \<longrightarrow>
        (\<exists>f. map_of actions_fn action = Some f \<and> apply_action E action a = invoke f E a)"
    using apply_action_known [of action E a] by (simp add: set_exposed)
  moreover have "action \<notin> set exposed_action_names \<longrightarrow>
        apply_action E action a = Throws (Exn RuntimeError UnknownAction help_actions) a"
    using apply_action_unknown [of action E a] by (simp add: set_exposed)
  moreover have "\<forall>name \<in> set exposed_action_names.
              \<exists>before after. help_actions = before @ name @ endl @ after"
    using help_lists_name by (simp add: set_exposed)
  ultimately show ?thesis by blast
qed

theorem apply_action_dispatch_witness:
  "''merge'' \<in> set exposed_action_names
   \<and> apply_action tree_engine ''merge'' example_agent = merge tree_engine example_agent
   \<and> ''Merge'' \<notin> set exposed_action_names
   \<and> apply_action tree_engine ''Merge'' example_agent
       = Throws (Exn RuntimeError UnknownAction help_actions) example_agent"
  using apply_action_dispatch [of tree_engine example_agent "''merge''"]
    apply_action_dispatch [of tree_engine example_agent "''Merge''"]
  by (simp add: exposed_action_names_def)













lemmas agent_eval =
  apply_action_def ASSERT_def actions_fn_def action_defs tree_engine_defs example_agent_def



subsection \<open>The trial loop\<close>

lemma names_apply:
  "map (\<lambda>name. apply_action E name a) (map_keys actions_fn) =
     [copy_input_0 E a, copy_input_1 E a, decrease_reuse E a, down E a, increase_reuse E a,
      merge E a, split E 128 a, split E 16 a, split E 2 a, split E 256 a, split E 32 a,
      split E 4 a, split E 64 a, split E 8 a, swap_down E a, swap_up E a, unroll E a, up E a,
      vectorize E a]"
  unfolding map_keys_actions_fn
  by (simp add: apply_action_def ASSERT_def actions_fn_def)

lemma filter_map: "filter (\<lambda>x. P (f x)) xs = map fst (filter (\<lambda>p. P (snd p)) (zip xs (map f xs)))"
  by (induction xs) auto


lemma get_available_actions_char:
  "get_available_actions E a =
     (case find (\<lambda>action. escapes (apply_action E action a)) (map_keys actions_fn) of
        None \<Rightarrow>
          Returns (filter (\<lambda>action. succeeds (apply_action E action a)) (map_keys actions_fn)) a
      | Some action \<Rightarrow> propagate (apply_action E action a))"
  by (simp add: get_available_actions_def trial_loop_char split: option.splits)


lemma find_None_list_all: "find P xs = None \<longleftrightarrow> list_all (\<lambda>x. \<not> P x) xs"
  by (induction xs) auto






lemma failing_merge_results:
  "map (\<lambda>name. apply_action (failing_merge_engine e) name example_agent) (map_keys actions_fn) =
     [Throws (illegal ''get_inputs'') example_agent, Throws (illegal ''get_inputs'') example_agent,
      Throws (illegal ''decrease_reuse'') example_agent,
      Returns () (example_agent\<lparr>cursor := 1\<rparr>),
      Throws (illegal ''increase_reuse'') example_agent,
      Throws e example_agent,
      Throws (illegal ''split'') example_agent, Throws (illegal ''split'') example_agent,
      Throws (illegal ''split'') example_agent, Throws (illegal ''split'') example_agent,
      Throws (illegal ''split'') example_agent, Throws (illegal ''split'') example_agent,
      Throws (illegal ''split'') example_agent, Throws (illegal ''split'') example_agent,
      Throws (illegal ''try_swap'') example_agent,
      Throws (illegal ''no previous node'') example_agent,
      Returns () (example_agent\<lparr>lt := [Loop 0 64 1 ''unroll'' [Leaf 0 [0]]]\<rparr>),
      Throws (illegal ''no previous node'') example_agent,
      Returns () (example_agent\<lparr>lt := [Loop 0 64 1 ''vectorize'' [Leaf 0 [0]]]\<rparr>)]"
  unfolding names_apply
  by (simp add: action_defs failing_merge_engine_def tree_engine_defs example_agent_def)

lemma find_map: "find (\<lambda>x. P (f x)) xs = map_option fst (find (\<lambda>p. P (snd p)) (zip xs (map f xs)))"
  by (induction xs) auto

lemma find_zip_snd: "find (\<lambda>p. P (snd p)) (zip xs (map f xs)) = Some p \<Longrightarrow> snd p = f (fst p)"
  by (induction xs) (auto split: if_splits)

lemma get_available_actions_results:
  "get_available_actions E a =
     (case find (\<lambda>p. escapes (snd p))
            (zip (map_keys actions_fn) (map (\<lambda>name. apply_action E name a) (map_keys actions_fn))) of
        None \<Rightarrow>
          Returns (map fst (filter (\<lambda>p. succeeds (snd p))
            (zip (map_keys actions_fn) (map (\<lambda>name. apply_action E name a) (map_keys actions_fn))))) a
      | Some p \<Rightarrow> propagate (snd p))"
proof -
  have "find (\<lambda>action. escapes (apply_action E action a)) (map_keys actions_fn)
      = map_option fst (find (\<lambda>p. escapes (snd p))
          (zip (map_keys actions_fn) (map (\<lambda>name. apply_action E name a) (map_keys actions_fn))))"
    by (rule find_map)
  moreover have "filter (\<lambda>action. succeeds (apply_action E action a)) (map_keys actions_fn)
      = map fst (filter (\<lambda>p. succeeds (snd p))
          (zip (map_keys actions_fn) (map (\<lambda>name. apply_action E name a) (map_keys actions_fn))))"
    by (rule filter_map)
  moreover have "\<And>p. find (\<lambda>p. escapes (snd p))
          (zip (map_keys actions_fn) (map (\<lambda>name. apply_action E name a) (map_keys actions_fn))) = Some p
        \<Longrightarrow> snd p = apply_action E (fst p) a"
    by (rule find_zip_snd)
  ultimately show ?thesis
    by (simp add: get_available_actions_char split: option.splits)
qed









lemma find_first: "list_all (\<lambda>x. \<not> P x) before \<Longrightarrow> P x \<Longrightarrow> find P (before @ x # after) = Some x"
  by (induction before) auto

text \<open>
  Claim C2, as amended. The trial loop catches by the class of the exception, not by its
  kind. If every exception the trials raise is a \<^verbatim>\<open>std::runtime_error\<close>, of
  whatever kind, the call returns and leaves out each action that raised one. The first
  trial that raises an exception of another class ends the call with that exception, and
  the state is as before the call.
\<close>

theorem get_available_actions_catches_by_class:
  "(list_all (\<lambda>action. \<not> escapes (apply_action E action a)) (map_keys actions_fn) \<longrightarrow>
      (\<exists>available. get_available_actions E a = Returns available a
         \<and> (\<forall>action \<in> set (map_keys actions_fn). \<forall>e s.
               apply_action E action a = Throws e s \<longrightarrow>
               cls e = RuntimeError \<and> action \<notin> set available)))
   \<and> (\<forall>before action after e s.
        map_keys actions_fn = before @ action # after
        \<and> list_all (\<lambda>action. \<not> escapes (apply_action E action a)) before
        \<and> apply_action E action a = Throws e s \<and> cls e \<noteq> RuntimeError
        \<longrightarrow> get_available_actions E a = Throws e a)"
proof (intro conjI impI allI)
  assume h: "list_all (\<lambda>action. \<not> escapes (apply_action E action a)) (map_keys actions_fn)"
  then have "find (\<lambda>action. escapes (apply_action E action a)) (map_keys actions_fn) = None"
    by (simp add: find_None_list_all)
  then have g: "get_available_actions E a =
      Returns (filter (\<lambda>action. succeeds (apply_action E action a)) (map_keys actions_fn)) a"
    by (simp add: get_available_actions_char)
  have "\<forall>action \<in> set (map_keys actions_fn). \<forall>e s.
      apply_action E action a = Throws e s \<longrightarrow>
      cls e = RuntimeError
      \<and> action \<notin> set (filter (\<lambda>action. succeeds (apply_action E action a)) (map_keys actions_fn))"
    using h by (auto simp: list_all_iff escapes_def succeeds_def)
  with g show "\<exists>available. get_available_actions E a = Returns available a
         \<and> (\<forall>action \<in> set (map_keys actions_fn). \<forall>e s.
               apply_action E action a = Throws e s \<longrightarrow>
               cls e = RuntimeError \<and> action \<notin> set available)"
    by blast
next
  fix before action after e s
  assume h: "map_keys actions_fn = before @ action # after
        \<and> list_all (\<lambda>action. \<not> escapes (apply_action E action a)) before
        \<and> apply_action E action a = Throws e s \<and> cls e \<noteq> RuntimeError"
  then have esc: "escapes (apply_action E action a)" by (simp add: escapes_def)
  from h have "find (\<lambda>action. escapes (apply_action E action a)) (map_keys actions_fn) = Some action"
    using find_first [of "\<lambda>action. escapes (apply_action E action a)" before action after] esc
    by simp
  then have "get_available_actions E a = propagate (apply_action E action a)"
    by (simp add: get_available_actions_char)
  moreover from h apply_action_frame [of a E action] have "s = a"
    using frame_Throws by blast
  ultimately show "get_available_actions E a = Throws e a"
    using h by (simp add: propagate_def)
qed

lemma defect_available:
  "get_available_actions (failing_merge_engine defect) example_agent
     = Returns [''down'', ''unroll'', ''vectorize''] example_agent"
  unfolding get_available_actions_results failing_merge_results
  by (simp add: map_keys_actions_fn escapes_def succeeds_def illegal_def defect_def)

text \<open>
  The claim C2 as stated fails: here the trial of \<^verbatim>\<open>merge\<close> raises an error that
  is not an illegal mutation, and the call swallows it and returns.
\<close>

theorem get_available_actions_swallows_defect:
  "apply_action (failing_merge_engine defect) ''merge'' example_agent = Throws defect example_agent
   \<and> cls defect = RuntimeError \<and> kind defect \<noteq> IllegalMutation
   \<and> get_available_actions (failing_merge_engine defect) example_agent
       = Returns [''down'', ''unroll'', ''vectorize''] example_agent"
  using defect_available
  by (simp add: defect_def agent_eval failing_merge_engine_def)

theorem get_available_actions_catches_by_class_witness:
  "list_all (\<lambda>action. \<not> escapes (apply_action (failing_merge_engine defect) action example_agent))
     (map_keys actions_fn)
   \<and> get_available_actions (failing_merge_engine defect) example_agent
       = Returns [''down'', ''unroll'', ''vectorize''] example_agent
   \<and> apply_action (failing_merge_engine bad_alloc) ''merge'' example_agent = Throws bad_alloc example_agent
   \<and> cls bad_alloc \<noteq> RuntimeError
   \<and> get_available_actions (failing_merge_engine bad_alloc) example_agent = Throws bad_alloc example_agent"
proof -
  have 1: "list_all (\<lambda>action. \<not> escapes (apply_action (failing_merge_engine defect) action example_agent))
     (map_keys actions_fn)"
  proof -
    have "list_all (\<lambda>r. \<not> escapes r)
      (map (\<lambda>name. apply_action (failing_merge_engine defect) name example_agent) (map_keys actions_fn))"
      unfolding failing_merge_results by (simp add: escapes_def illegal_def defect_def)
    then show ?thesis by (simp add: list.pred_map comp_def)
  qed
  have 2: "map_keys actions_fn =
      [''copy_input_0'', ''copy_input_1'', ''decrease_reuse'', ''down'', ''increase_reuse'']
      @ ''merge'' # [''split_128'', ''split_16'', ''split_2'', ''split_256'', ''split_32'',
         ''split_4'', ''split_64'', ''split_8'', ''swap_down'', ''swap_up'', ''unroll'', ''up'',
         ''vectorize'']"
    by (simp add: map_keys_actions_fn)
  have 3: "list_all (\<lambda>action. \<not> escapes (apply_action (failing_merge_engine bad_alloc) action example_agent))
      [''copy_input_0'', ''copy_input_1'', ''decrease_reuse'', ''down'', ''increase_reuse'']"
    by (simp add: agent_eval failing_merge_engine_def escapes_def)
  have 4: "apply_action (failing_merge_engine bad_alloc) ''merge'' example_agent = Throws bad_alloc example_agent"
    by (simp add: agent_eval failing_merge_engine_def)
  have 5: "cls bad_alloc \<noteq> RuntimeError" by (simp add: bad_alloc_def)
  note t = get_available_actions_catches_by_class
  from t [where E = "failing_merge_engine defect" and a = example_agent] 1
  obtain available where "get_available_actions (failing_merge_engine defect) example_agent
      = Returns available example_agent" by blast
  with defect_available have 6: "get_available_actions (failing_merge_engine defect) example_agent
       = Returns [''down'', ''unroll'', ''vectorize''] example_agent" by simp
  from t [where E = "failing_merge_engine bad_alloc" and a = example_agent] 2 3 4 5
  have 7: "get_available_actions (failing_merge_engine bad_alloc) example_agent = Throws bad_alloc example_agent"
    by blast
  from 1 6 4 5 7 show ?thesis by blast
qed

subsection \<open>Serialization\<close>

lemma of_char_digit_char: "d < 10 \<Longrightarrow> of_char (digit_char d) = 48 + d"
  by (simp add: digit_char_def)

lemma isdigit_digit_char: "d < 10 \<Longrightarrow> isdigit (digit_char d)"
  by (simp add: isdigit_def of_char_digit_char)

lemma digit_val_digit_char: "d < 10 \<Longrightarrow> digit_val (digit_char d) = d"
  by (simp add: digit_val_def of_char_digit_char)

lemma digits_nonempty: "digits n \<noteq> []"
  by (subst digits.simps) simp

lemma digits_all_isdigit: "list_all isdigit (digits n)"
  by (induction n rule: digits.induct) (subst digits.simps, simp add: isdigit_digit_char)

lemma decimal_snoc: "decimal (ds @ [c]) = 10 * decimal ds + digit_val c"
  by (simp add: decimal_def)

lemma decimal_digits: "decimal (digits n) = n"
proof (induction n rule: digits.induct)
  case (1 n)
  show ?case
  proof (cases "n < 10")
    case True
    then show ?thesis by (subst digits.simps) (simp add: decimal_def digit_val_digit_char)
  next
    case False
    with 1 show ?thesis
      by (subst digits.simps) (simp add: decimal_snoc digit_val_digit_char)
  qed
qed

lemma length_digits: "n < 10 ^ Suc k \<Longrightarrow> length (digits n) \<le> Suc k"
proof (induction k arbitrary: n)
  case 0
  then show ?case by (subst digits.simps) simp
next
  case (Suc k)
  show ?case
  proof (cases "n < 10")
    case True
    then show ?thesis by (subst digits.simps) simp
  next
    case False
    from Suc.prems have "n div 10 < 10 ^ Suc k" by (simp add: less_mult_imp_div_less mult.commute)
    from Suc.IH [OF this] False show ?thesis by (subst digits.simps) simp
  qed
qed

lemma isdigit_not_special:
  "isdigit c \<Longrightarrow> \<not> isspace c \<and> c \<noteq> CHR ''-'' \<and> c \<noteq> CHR ''+'' \<and> c \<noteq> CHR 0x0A"
  by (auto simp: isdigit_def isspace_def)

lemma takeWhile_all: "list_all P xs \<Longrightarrow> takeWhile P xs = xs"
  by (induction xs) auto

lemma stoi_all_digits:
  assumes "ds \<noteq> []" "list_all isdigit ds" "int (decimal ds) \<le> INT_MAX"
  shows "stoi ds = Inr (int (decimal ds))"
proof (cases ds)
  case Nil
  with assms show ?thesis by simp
next
  case (Cons c cs)
  with assms have "isdigit c" "list_all isdigit cs" by simp_all
  with isdigit_not_special [of c] Cons assms(3) show ?thesis
    by (simp add: stoi_def leading_digits_def Let_def takeWhile_all INT_MIN_def)
qed

lemma stoi_minus_all_digits:
  assumes "ds \<noteq> []" "list_all isdigit ds" "INT_MIN \<le> - int (decimal ds)"
  shows "stoi (CHR ''-'' # ds) = Inr (- int (decimal ds))"
  using assms by (simp add: stoi_def leading_digits_def Let_def isspace_def takeWhile_all INT_MAX_def)

lemma stoi_digits: "int n \<le> INT_MAX \<Longrightarrow> stoi (digits n) = Inr (int n)"
  using stoi_all_digits [of "digits n"] by (simp add: digits_nonempty digits_all_isdigit decimal_digits)

lemma stoi_minus_digits: "INT_MIN \<le> - int n \<Longrightarrow> stoi (CHR ''-'' # digits n) = Inr (- int n)"
  using stoi_minus_all_digits [of "digits n"]
  by (simp add: digits_nonempty digits_all_isdigit decimal_digits)

lemma stoi_to_string: "INT_MIN \<le> i \<Longrightarrow> i \<le> INT_MAX \<Longrightarrow> stoi (to_string i) = Inr i"
  using stoi_digits [of "nat i"] stoi_minus_digits [of "nat (- i)"]
  by (simp add: to_string_def)

lemma to_string_no_newline: "CHR 0x0A \<notin> set (to_string i)"
  using digits_all_isdigit isdigit_not_special
  by (auto simp: to_string_def list_all_iff)

lemma length_to_string:
  assumes "INT_MIN \<le> i" "i \<le> INT_MAX"
  shows "length (to_string i) \<le> 11"
proof (cases "i < 0")
  case True
  with assms have "nat (- i) < 10 ^ Suc 9" by (simp add: INT_MIN_def)
  from length_digits [OF this] True show ?thesis by (simp add: to_string_def)
next
  case False
  with assms have "nat i < 10 ^ Suc 9" by (simp add: INT_MAX_def)
  from length_digits [OF this] False show ?thesis by (simp add: to_string_def)
qed

lemma size_t_to_int_small: "n < 2 ^ 31 \<Longrightarrow> size_t_to_int n = int n"
  by (simp add: size_t_to_int_def Let_def)

lemma size_t_to_int_npos: "size_t_to_int npos = - 1"
  by (simp add: size_t_to_int_def npos_def Let_def)

lemma int_to_size_t_nat: "n < 2 ^ 64 \<Longrightarrow> int_to_size_t (int n) = n"
  by (simp add: int_to_size_t_def)

lemma int_to_size_t_minus_one: "int_to_size_t (- 1) = npos"
  by (simp add: int_to_size_t_def npos_def)

lemma length_takeWhile_less: "x \<in> set xs \<Longrightarrow> length (takeWhile (\<lambda>c. c \<noteq> x) xs) < length xs"
  by (induction xs) auto

lemma tl_dropWhile_drop:
  "tl (dropWhile P xs) = drop (Suc (length (takeWhile P xs))) xs"
  by (simp add: dropWhile_eq_drop drop_Suc tl_drop)

lemma deserialize_found:
  assumes "CHR 0x0A \<in> set ser" "length (takeWhile (\<lambda>c. c \<noteq> CHR 0x0A) ser) < 2 ^ 31 - 1"
  shows "deserialize E this ser =
     (case stoi (first_line ser) of
        Inl e \<Rightarrow> Throws e this
      | Inr c \<Rightarrow>
          (case loop_tool_deserialize E (after_first_line ser) of
             Inl e \<Rightarrow> Throws e this
           | Inr g \<Rightarrow> Returns \<lparr>lt = LoopTree_of_ir E g, cursor = c\<rparr> this))"
proof -
  define p where "p = length (takeWhile (\<lambda>c. c \<noteq> CHR 0x0A) ser)"
  have p: "p < length ser" "p < 2 ^ 31 - 1"
    using assms length_takeWhile_less [of "CHR 0x0A" ser] by (simp_all add: p_def)
  have f: "string_find ser (CHR 0x0A) = p"
    using assms by (simp add: string_find_def p_def)
  have d: "size_t_to_int p = int p" using p by (simp add: size_t_to_int_small)
  have s1: "int_to_size_t (int p) = p" using p by (simp add: int_to_size_t_nat)
  have s2: "int_to_size_t (int p + 1) = Suc p"
  proof -
    have "int p + 1 = int (Suc p)" by simp
    moreover have "Suc p < 2 ^ 64" using p by simp
    ultimately show ?thesis by (simp only: int_to_size_t_nat)
  qed
  have l1: "substr ser 0 p = Inr (first_line ser)"
    by (simp add: substr_def first_line_def p_def takeWhile_eq_take [symmetric])
  have l2: "substr ser (Suc p) (length ser) = Inr (after_first_line ser)"
    using p assms by (simp add: substr_def after_first_line_def tl_dropWhile_drop p_def)
  have m: "int p \<noteq> INT_MAX" using p by (simp add: INT_MAX_def)
  show ?thesis
    by (simp add: deserialize_def Let_def f d s1 s2 l1 l2 m split: sum.splits)
qed

lemma deserialize_not_found:
  assumes "CHR 0x0A \<notin> set ser" "length ser < 2 ^ 64"
  shows "deserialize E this ser =
     (case stoi (first_line ser) of
        Inl e \<Rightarrow> Throws e this
      | Inr c \<Rightarrow>
          (case loop_tool_deserialize E (after_first_line ser) of
             Inl e \<Rightarrow> Throws e this
           | Inr g \<Rightarrow> Returns \<lparr>lt = LoopTree_of_ir E g, cursor = c\<rparr> this))"
proof -
  have f: "string_find ser (CHR 0x0A) = npos"
    using assms by (simp add: string_find_def)
  have tw: "takeWhile (\<lambda>c. c \<noteq> CHR 0x0A) ser = ser"
    using assms by (simp add: takeWhile_eq_all_conv) blast
  have l1: "substr ser 0 npos = Inr (first_line ser)"
    using assms by (simp add: substr_def first_line_def npos_def tw)
  have z: "int_to_size_t 0 = 0" by (simp add: int_to_size_t_def)
  have l2: "substr ser 0 (length ser) = Inr (after_first_line ser)"
    using assms by (simp add: substr_def after_first_line_def)
  have m: "(- 1 :: int) \<noteq> INT_MAX" by (simp add: INT_MAX_def)
  show ?thesis
    by (simp add: deserialize_def Let_def f size_t_to_int_npos int_to_size_t_minus_one z l1 l2 m
        split: sum.splits)
qed

lemma deserialize_short:
  assumes "length ser < 2 ^ 31"
  shows "deserialize E this ser =
     (case stoi (first_line ser) of
        Inl e \<Rightarrow> Throws e this
      | Inr c \<Rightarrow>
          (case loop_tool_deserialize E (after_first_line ser) of
             Inl e \<Rightarrow> Throws e this
           | Inr g \<Rightarrow> Returns \<lparr>lt = LoopTree_of_ir E g, cursor = c\<rparr> this))"
proof (cases "CHR 0x0A \<in> set ser")
  case True
  with length_takeWhile_less [of "CHR 0x0A" ser] assms
  have "length (takeWhile (\<lambda>c. c \<noteq> CHR 0x0A) ser) < 2 ^ 31 - 1" by simp
  with True show ?thesis by (rule deserialize_found)
next
  case False
  moreover from assms have "length ser < 2 ^ 64" by simp
  ultimately show ?thesis by (rule deserialize_not_found)
qed

lemma first_line_serialized: "first_line (to_string c @ endl @ g) = to_string c"
  using to_string_no_newline [of c]
  by (simp add: first_line_def endl_def takeWhile_append takeWhile_all list_all_iff)

lemma after_first_line_serialized: "after_first_line (to_string c @ endl @ g) = g"
proof -
  have "dropWhile (\<lambda>x. x \<noteq> CHR 0x0A) (to_string c) = []"
    using to_string_no_newline [of c] by (simp add: dropWhile_eq_Nil_conv) blast
  then show ?thesis
    by (simp add: after_first_line_def endl_def dropWhile_append)
qed

lemma same_dump_dump: "same_dump E (lt b) (lt a) \<Longrightarrow> cursor b = cursor a \<Longrightarrow> dump E b = dump E a"
  by (simp add: same_dump_def dump_def cong: if_cong)

lemma deserialize_serialized:
  assumes "INT_MIN \<le> cursor a" "cursor a \<le> INT_MAX"
  shows "deserialize E this (serialize E a) =
        (case loop_tool_deserialize E (loop_tool_serialize E (LoopTree_ir E (lt a))) of
           Inl e \<Rightarrow> Throws e this
         | Inr g \<Rightarrow> Returns \<lparr>lt = LoopTree_of_ir E g, cursor = cursor a\<rparr> this)"
proof -
  let ?g = "loop_tool_serialize E (LoopTree_ir E (lt a))"
  have nl: "CHR 0x0A \<in> set (serialize E a)"
    by (simp add: serialize_def endl_def)
  have "takeWhile (\<lambda>c. c \<noteq> CHR 0x0A) (serialize E a) = to_string (cursor a)"
    using first_line_serialized [of "cursor a" ?g] by (simp add: first_line_def serialize_def)
  with length_to_string [OF assms]
  have "length (takeWhile (\<lambda>c. c \<noteq> CHR 0x0A) (serialize E a)) < 2 ^ 31 - 1" by simp
  from deserialize_found [OF nl this, of E this]
  show ?thesis
    by (simp add: serialize_def first_line_serialized after_first_line_serialized
        stoi_to_string [OF assms])
qed

text \<open>
  Claim C6. \<^verbatim>\<open>serialize()\<close> is the decimal text of the cursor, a newline, then the
  text of the graph of the tree. On an engine whose graph text and tree construction round
  trip up to an equivalence of trees, \<^verbatim>\<open>deserialize(serialize(agent))\<close> returns
  an agent whose cursor is the cursor of the original and whose tree is equivalent to the
  tree of the original; where equivalent trees print the same dump, the two agents print
  the same dump, cursor marker included.
\<close>

theorem serialize_round_trip:
  assumes "INT_MIN \<le> cursor a" "cursor a \<le> INT_MAX" and "round_trip_up_to same E"
  shows "serialize E a = to_string (cursor a) @ endl @ loop_tool_serialize E (LoopTree_ir E (lt a))
    \<and> (\<exists>b. deserialize E this (serialize E a) = Returns b this
          \<and> cursor b = cursor a \<and> same (lt b) (lt a)
          \<and> ((\<forall>t t'. same t t' \<longrightarrow> same_dump E t t') \<longrightarrow> dump E b = dump E a))"
proof -
  from assms(3) obtain g where
    g: "loop_tool_deserialize E (loop_tool_serialize E (LoopTree_ir E (lt a))) = Inr g"
      "same (LoopTree_of_ir E g) (lt a)"
    unfolding round_trip_up_to_def by blast
  from deserialize_serialized [OF assms(1,2), of E this] g(1)
  have "deserialize E this (serialize E a)
      = Returns \<lparr>lt = LoopTree_of_ir E g, cursor = cursor a\<rparr> this"
    by simp
  with g(2) have "\<exists>b. deserialize E this (serialize E a) = Returns b this
          \<and> cursor b = cursor a \<and> same (lt b) (lt a)
          \<and> ((\<forall>t t'. same t t' \<longrightarrow> same_dump E t t') \<longrightarrow> dump E b = dump E a)"
    by (intro exI [of _ "\<lparr>lt = LoopTree_of_ir E g, cursor = cursor a\<rparr>"])
      (simp add: same_dump_dump)
  then show ?thesis by (simp add: serialize_def)
qed

lemma text_engine_round_trip: "round_trip_up_to (same_dump text_engine) text_engine"
  by (simp add: round_trip_up_to_def same_dump_def text_engine_def)

theorem serialize_round_trip_witness:
  "INT_MIN \<le> cursor text_agent \<and> cursor text_agent \<le> INT_MAX
   \<and> round_trip_up_to (same_dump text_engine) text_engine
   \<and> serialize text_engine text_agent = ''3'' @ endl @ ''graph''
   \<and> deserialize text_engine text_agent (''3'' @ endl @ ''graph'')
       = Returns \<lparr>lt = ''graph'', cursor = 3\<rparr> text_agent
   \<and> same_dump text_engine ''graph'' (lt text_agent)
   \<and> dump text_engine \<lparr>lt = ''graph'', cursor = 3\<rparr> = dump text_engine text_agent"
proof -
  have r: "INT_MIN \<le> cursor text_agent" "cursor text_agent \<le> INT_MAX"
    by (simp_all add: text_agent_def INT_MIN_def INT_MAX_def)
  have t: "to_string 3 = ''3''"
    by code_simp
  note rt = serialize_round_trip [OF r text_engine_round_trip, of text_agent]
  from rt have s: "serialize text_engine text_agent =
      to_string (cursor text_agent) @ endl
        @ loop_tool_serialize text_engine (LoopTree_ir text_engine (lt text_agent))"
    by blast
  have s': "serialize text_engine text_agent = ''3'' @ endl @ ''graph''"
    using t by (simp add: s) (simp add: text_engine_def text_agent_def)
  from rt obtain b where b: "deserialize text_engine text_agent (serialize text_engine text_agent)
      = Returns b text_agent" "cursor b = cursor text_agent"
      "same_dump text_engine (lt b) (lt text_agent)"
      "dump text_engine b = dump text_engine text_agent"
    by blast
  have "deserialize text_engine text_agent (serialize text_engine text_agent)
      = Returns \<lparr>lt = ''graph'', cursor = 3\<rparr> text_agent"
    unfolding deserialize_serialized [OF r]
    by (simp add: text_engine_def text_agent_def)
  with b have "b = \<lparr>lt = ''graph'', cursor = 3\<rparr>" by simp
  with b(3,4) have e: "same_dump text_engine ''graph'' (lt text_agent)"
    "dump text_engine \<lparr>lt = ''graph'', cursor = 3\<rparr> = dump text_engine text_agent" by simp_all
  from \<open>deserialize text_engine text_agent (serialize text_engine text_agent)
      = Returns \<lparr>lt = ''graph'', cursor = 3\<rparr> text_agent\<close>
  have d: "deserialize text_engine text_agent (''3'' @ endl @ ''graph'')
       = Returns \<lparr>lt = ''graph'', cursor = 3\<rparr> text_agent"
    unfolding s' .
  from r text_engine_round_trip s' d e show ?thesis by blast
qed

lemma stoi_no_digits:
  "leading_digits str = [] \<Longrightarrow> stoi str = Inl (Exn InvalidArgument MalformedSerialization ''stoi'')"
  by (simp add: stoi_def Let_def)

text \<open>
  Claim C7, as amended. For a text of fewer than \<open>2 ^ 31\<close> characters,
  \<^verbatim>\<open>deserialize\<close> fails before it builds an agent exactly as \<^verbatim>\<open>std::stoi\<close>
  fails on the text before the first newline (the whole text when there is no newline):
  with \<^verbatim>\<open>std::invalid_argument\<close> when no digit follows the optional white space
  and sign. Otherwise the leading integer is the cursor, whatever follows it on the first
  line is ignored, and the text after the first newline (the whole text when there is
  none) goes to the graph deserializer, whose failure is the only other one.
\<close>

theorem deserialize_fails_as_stoi:
  assumes "length ser < 2 ^ 31"
  shows "(leading_digits (first_line ser) = [] \<longrightarrow>
            deserialize E this ser = Throws (Exn InvalidArgument MalformedSerialization ''stoi'') this)
    \<and> (\<forall>e. stoi (first_line ser) = Inl e \<longrightarrow> deserialize E this ser = Throws e this)
    \<and> (\<forall>c. stoi (first_line ser) = Inr c \<longrightarrow>
          deserialize E this ser =
            (case loop_tool_deserialize E (after_first_line ser) of
               Inl e \<Rightarrow> Throws e this
             | Inr g \<Rightarrow> Returns \<lparr>lt = LoopTree_of_ir E g, cursor = c\<rparr> this))"
  using deserialize_short [OF assms, of E this] stoi_no_digits [of "first_line ser"]
  by simp

lemma seven_x: "stoi ''7x'' = Inr 7"
  by (simp add: stoi_def leading_digits_def Let_def isspace_def isdigit_def decimal_def digit_val_def
      INT_MIN_def INT_MAX_def)

lemma first_line_seven_x: "first_line (''7x'' @ endl @ ''graph'') = ''7x''"
  by (simp add: first_line_def endl_def)

lemma after_first_line_seven_x: "after_first_line (''7x'' @ endl @ ''graph'') = ''graph''"
  by (simp add: after_first_line_def endl_def)

text \<open>
  The claim C7 as stated fails: the first line \<open>7x\<close> is not a number, and an agent
  with the cursor 7 is built.
\<close>

theorem deserialize_accepts_trailing_text:
  "first_line (''7x'' @ endl @ ''graph'') = ''7x''
   \<and> deserialize text_engine text_agent (''7x'' @ endl @ ''graph'')
       = Returns \<lparr>lt = ''graph'', cursor = 7\<rparr> text_agent"
proof -
  have len: "length (''7x'' @ endl @ ''graph'') < 2 ^ 31" by (simp add: endl_def)
  have "deserialize text_engine text_agent (''7x'' @ endl @ ''graph'')
       = Returns \<lparr>lt = ''graph'', cursor = 7\<rparr> text_agent"
    unfolding deserialize_short [OF len] first_line_seven_x after_first_line_seven_x seven_x
    by (simp add: text_engine_def)
  with first_line_seven_x show ?thesis by blast
qed

theorem deserialize_fails_as_stoi_witness:
  "length (''x7'' @ endl @ ''graph'') < 2 ^ 31
   \<and> leading_digits (first_line (''x7'' @ endl @ ''graph'')) = []
   \<and> deserialize text_engine text_agent (''x7'' @ endl @ ''graph'')
       = Throws (Exn InvalidArgument MalformedSerialization ''stoi'') text_agent
   \<and> length ''5'' < 2 ^ 31 \<and> stoi (first_line ''5'') = Inr 5
   \<and> deserialize text_engine text_agent ''5'' = Returns \<lparr>lt = ''5'', cursor = 5\<rparr> text_agent"
proof -
  have l1: "length (''x7'' @ endl @ ''graph'') < 2 ^ 31" by (simp add: endl_def)
  have d1: "leading_digits (first_line (''x7'' @ endl @ ''graph'')) = []"
    by (simp add: first_line_def endl_def leading_digits_def isspace_def isdigit_def)
  have l2: "length ''5'' < 2 ^ 31" by simp
  have s2: "stoi (first_line ''5'') = Inr 5"
    by (simp add: first_line_def stoi_def leading_digits_def Let_def isspace_def isdigit_def
        decimal_def digit_val_def INT_MIN_def INT_MAX_def)
  have a2: "after_first_line ''5'' = ''5''" by (simp add: after_first_line_def)
  from deserialize_fails_as_stoi [OF l1, of text_engine text_agent] d1
  have r1: "deserialize text_engine text_agent (''x7'' @ endl @ ''graph'')
       = Throws (Exn InvalidArgument MalformedSerialization ''stoi'') text_agent"
    by blast
  from deserialize_fails_as_stoi [OF l2, of text_engine text_agent] s2
  have "deserialize text_engine text_agent ''5'' =
            (case loop_tool_deserialize text_engine (after_first_line ''5'') of
               Inl e \<Rightarrow> Throws e text_agent
             | Inr g \<Rightarrow> Returns \<lparr>lt = LoopTree_of_ir text_engine g, cursor = 5\<rparr> text_agent)"
    by blast
  then have r2: "deserialize text_engine text_agent ''5'' = Returns \<lparr>lt = ''5'', cursor = 5\<rparr> text_agent"
    by (simp add: a2) (simp add: text_engine_def)
  from l1 d1 r1 l2 s2 r2 show ?thesis by blast
qed

subsection \<open>Actions on the loop tree of the specification\<close>

lemma node_at_less: "node_at t i = Some n \<Longrightarrow> i < count_nodes t"
  by (induction t i rule: node_at.induct) (auto split: if_splits)

lemma rewrite_at_fails:
  "node_at t i = Some n \<Longrightarrow> f n = Inl e \<Longrightarrow> rewrite_at f t i = Inl e"
  by (induction t i rule: node_at.induct) (auto split: if_splits)

lemma rewrite_at_node:
  "node_at t i = Some n \<Longrightarrow> f n = Inr m \<Longrightarrow>
     \<exists>t'. rewrite_at f t i = Inr t' \<and> node_at t' i = Some m"
proof (induction t i rule: node_at.induct)
  case (1 i)
  then show ?case by simp
next
  case (2 c vs ns i)
  then show ?case by (cases m) (auto split: if_splits)
next
  case (3 v k s x cs ns i)
  show ?case
  proof (cases "i = 0")
    case True
    with 3 show ?thesis by (cases m) auto
  next
    case False
    show ?thesis
    proof (cases "i - 1 < count_nodes cs")
      case True
      with 3 False obtain cs' where "rewrite_at f cs (i - 1) = Inr cs'" "node_at cs' (i - 1) = Some m"
        by auto
      with False True node_at_less [of cs' "i - 1" m] show ?thesis by simp
    next
      case b: False
      with 3 False obtain ns' where "rewrite_at f ns (i - 1 - count_nodes cs) = Inr ns'"
        "node_at ns' (i - 1 - count_nodes cs) = Some m"
        by auto
      with False b show ?thesis by simp
    qed
  qed
qed

lemma merge_spec_leaf:
  assumes "0 \<le> ref" "node_at t (nat ref) = Some (Leaf c vs)"
  shows "merge_spec t ref = Inl (illegal ''merge: not a loop'')"
  using assms rewrite_at_fails [of t "nat ref" "Leaf c vs" collapse]
  by (simp add: merge_spec_def mutate_at_def)

lemma apply_merge: "apply_action E ''merge'' a = merge E a"
  using dispatch_table [of E a] by (simp add: exposed_action_names_def)

text \<open>
  Claim C3. With the merge of the specification, on every agent whose cursor refers to a
  leaf, \<^verbatim>\<open>apply_action("merge")\<close> fails with an illegal-mutation error, raised as
  a \<^verbatim>\<open>std::runtime_error\<close>, and the tree and the cursor after the failure are the
  ones before the call.
\<close>

theorem merge_on_leaf_fails:
  assumes "0 \<le> cursor a" "node_at (lt a) (nat (cursor a)) = Some (Leaf c vs)"
  shows "apply_action (E\<lparr>loop_tool_merge := merge_spec\<rparr>) ''merge'' a
           = Throws (illegal ''merge: not a loop'') a
    \<and> kind (illegal ''merge: not a loop'') = IllegalMutation
    \<and> cls (illegal ''merge: not a loop'') = RuntimeError"
  using merge_spec_leaf [OF assms]
  by (simp add: apply_merge merge_def assign_lt_def illegal_def)

theorem merge_on_leaf_fails_witness:
  "0 \<le> cursor leaf_agent \<and> node_at (lt leaf_agent) (nat (cursor leaf_agent)) = Some (Leaf 0 [0])
   \<and> apply_action tree_engine ''merge'' leaf_agent = Throws (illegal ''merge: not a loop'') leaf_agent"
proof -
  have 1: "0 \<le> cursor leaf_agent" by (simp add: leaf_agent_def)
  have 2: "node_at (lt leaf_agent) (nat (cursor leaf_agent)) = Some (Leaf 0 [0])"
    by (simp add: leaf_agent_def)
  have "tree_engine\<lparr>loop_tool_merge := merge_spec\<rparr> = tree_engine"
    by (simp add: tree_engine_def)
  with merge_on_leaf_fails [OF 1 2, of tree_engine] 1 2 show ?thesis by simp
qed

lemma apply_annotations:
  "apply_action E ''vectorize'' a = annotate E ''vectorize'' a
   \<and> apply_action E ''unroll'' a = annotate E ''unroll'' a"
  using dispatch_table [of E a] by (simp add: exposed_action_names_def vectorize_def unroll_def)

lemma annotation_spec_loop:
  "0 \<le> ref \<Longrightarrow> node_at t (nat ref) = Some (Loop v n s x cs) \<Longrightarrow> annotation_spec t ref = Inr x"
  by (simp add: annotation_spec_def)

lemma annotate_spec_loop:
  assumes "0 \<le> ref" "node_at t (nat ref) = Some (Loop v n s x cs)"
  shows "\<exists>t'. annotate_spec t ref text = Inr t' \<and> node_at t' (nat ref) = Some (Loop v n s text cs)"
  using assms rewrite_at_node [of t "nat ref" "Loop v n s x cs" "set_annotation text" "Loop v n s text cs"]
  by (simp add: annotate_spec_def mutate_at_def)

lemma annotation_spec_Inr:
  "annotation_spec t ref = Inr x \<Longrightarrow> 0 \<le> ref \<and> (\<exists>v n s cs. node_at t (nat ref) = Some (Loop v n s x cs))"
  by (auto simp: annotation_spec_def split: if_splits option.splits node.splits)

lemma annotation_contract_tree_engine: "annotation_contract tree_engine"
proof -
  have "\<exists>t'. annotate_spec t ref y = Inr t' \<and> annotation_spec t' ref = Inr y"
    if "annotation_spec t ref = Inr x" for t ref x y
  proof -
    from annotation_spec_Inr [OF that] obtain v n s cs where
      r: "0 \<le> ref" "node_at t (nat ref) = Some (Loop v n s x cs)" by blast
    from annotate_spec_loop [OF r, of y] obtain t' where
      "annotate_spec t ref y = Inr t'" "node_at t' (nat ref) = Some (Loop v n s y cs)" by blast
    with r(1) annotation_spec_loop [of ref t' v n s y cs] show ?thesis by simp
  qed
  then show ?thesis by (simp add: annotation_contract_def tree_engine_def)
qed

lemma toggle_once:
  assumes "annotation_contract E" "LoopTree_annotation E (lt a) (cursor a) = Inr x"
  shows "\<exists>t. annotate E tag a = Returns () (a\<lparr>lt := t\<rparr>)
           \<and> LoopTree_annotation E t (cursor a) = Inr (if x = tag then [] else tag)"
proof -
  from assms obtain t where
    "loop_tool_annotate E (lt a) (cursor a) (if x = tag then [] else tag) = Inr t"
    "LoopTree_annotation E t (cursor a) = Inr (if x = tag then [] else tag)"
    unfolding annotation_contract_def by blast
  with assms(2) show ?thesis
    by (intro exI [of _ t]) (auto simp: annotate_def assign_lt_def split: if_splits)
qed

lemma toggle_twice:
  assumes "annotation_contract E" "LoopTree_annotation E (lt a) (cursor a) = Inr x"
    and "tag = ''vectorize'' \<or> tag = ''unroll''"
  shows "\<exists>t1 t2.
      apply_action E tag a = Returns () (a\<lparr>lt := t1\<rparr>)
      \<and> LoopTree_annotation E t1 (cursor a) = Inr (if x = tag then [] else tag)
      \<and> apply_actions E [tag, tag] a = Returns () (a\<lparr>lt := t2\<rparr>)
      \<and> LoopTree_annotation E t2 (cursor a) = Inr (if x = tag then tag else [])"
proof -
  from assms(3) have ap: "\<And>b. apply_action E tag b = annotate E tag b"
    using apply_annotations by blast
  from toggle_once [OF assms(1,2), of tag] obtain t1 where
    1: "annotate E tag a = Returns () (a\<lparr>lt := t1\<rparr>)"
      "LoopTree_annotation E t1 (cursor a) = Inr (if x = tag then [] else tag)"
    by blast
  let ?b = "a\<lparr>lt := t1\<rparr>"
  have b: "LoopTree_annotation E (lt ?b) (cursor ?b) = Inr (if x = tag then [] else tag)"
    using 1(2) by simp
  from toggle_once [OF assms(1) b, of tag] obtain t2 where
    2: "annotate E tag ?b = Returns () (?b\<lparr>lt := t2\<rparr>)"
      "LoopTree_annotation E t2 (cursor ?b) =
         Inr (if (if x = tag then [] else tag) = tag then [] else tag)"
    by blast
  from assms(3) have "tag \<noteq> []" by auto
  with 2(2) have 3: "LoopTree_annotation E t2 (cursor a) = Inr (if x = tag then tag else [])"
    by (simp split: if_splits)
  have "apply_actions E [tag, tag] a = Returns () (a\<lparr>lt := t2\<rparr>)"
    using 1(1) 2(1) by (simp add: ap)
  with 1 3 ap show ?thesis by metis
qed

text \<open>
  Claim C5. On an engine that keeps the contract of annotations, for every agent whose
  cursor is on a loop node, two applications in a row of \<^verbatim>\<open>vectorize\<close> return the
  node to its unannotated state: the first sets the annotation (the node did not carry it),
  the second clears the annotation the first set, and only the tree has changed. The same
  holds for \<^verbatim>\<open>unroll\<close>.
\<close>

theorem annotate_twice:
  assumes "annotation_contract E" "LoopTree_annotation E (lt a) (cursor a) = Inr x"
    and "tag = ''vectorize'' \<or> tag = ''unroll''" and "x \<noteq> tag"
  shows "\<exists>t1 t2.
      apply_action E tag a = Returns () (a\<lparr>lt := t1\<rparr>)
      \<and> LoopTree_annotation E t1 (cursor a) = Inr tag
      \<and> apply_actions E [tag, tag] a = Returns () (a\<lparr>lt := t2\<rparr>)
      \<and> LoopTree_annotation E t2 (cursor a) = Inr []"
  using toggle_twice [OF assms(1,2,3)] assms(4) by simp

theorem annotate_twice_witness:
  "annotation_contract tree_engine
   \<and> LoopTree_annotation tree_engine (lt example_agent) (cursor example_agent) = Inr []
   \<and> [] \<noteq> ''vectorize''
   \<and> apply_action tree_engine ''vectorize'' example_agent
       = Returns () (example_agent\<lparr>lt := [Loop 0 64 1 ''vectorize'' [Leaf 0 [0]]]\<rparr>)
   \<and> apply_actions tree_engine [''vectorize'', ''vectorize''] example_agent = Returns () example_agent"
proof -
  have 1: "LoopTree_annotation tree_engine (lt example_agent) (cursor example_agent) = Inr []"
    by (simp add: tree_engine_def annotation_spec_def example_agent_def)
  have 2: "[] \<noteq> ''vectorize''" by simp
  from annotate_twice [OF annotation_contract_tree_engine 1 _ 2]
  obtain t2 where "apply_actions tree_engine [''vectorize'', ''vectorize''] example_agent
      = Returns () (example_agent\<lparr>lt := t2\<rparr>)"
    by auto
  moreover have v: "apply_action tree_engine ''vectorize'' example_agent
       = Returns () (example_agent\<lparr>lt := [Loop 0 64 1 ''vectorize'' [Leaf 0 [0]]]\<rparr>)"
    by (simp add: agent_eval)
  moreover have "apply_action tree_engine ''vectorize''
       (example_agent\<lparr>lt := [Loop 0 64 1 ''vectorize'' [Leaf 0 [0]]]\<rparr>)
       = Returns () example_agent"
    by (simp add: agent_eval)
  ultimately show ?thesis using 1 annotation_contract_tree_engine by simp
qed

end
